theory Spec2Isabelle
  imports Main "HOL-Library.AList"
begin

section \<open>Values, errors and the WSDL type metadata\<close>

text \<open>
  The schema fragments built by \<^verbatim>\<open>tap_bing_ads/__init__.py\<close> are Python values made of
  strings, booleans, lists and dicts. A dict is an association list in insertion order
  with one entry per key; \<^verbatim>\<open>d[k] = v\<close> is \<^const>\<open>AList.update\<close> (an existing key keeps its
  place, a new key goes last) and a lookup is \<^const>\<open>map_of\<close>.
  \<open>JRef a\<close> is a reference to the schema object stored at address \<open>a\<close>: the second
  loop of \<^verbatim>\<open>get_type_map\<close> assigns the map's own schema objects to properties, so these
  objects are shared and live in an explicit store.
\<close>

datatype json =
    JStr string
  | JBool bool
  | JList "json list"
  | JDict "(string \<times> json) list"
  | JRef nat

type_synonym jdict = "(string \<times> json) list"

text \<open>
  The decoded responses of the remote services (the result of \<^verbatim>\<open>sobject_to_dict\<close> and of
  \<^verbatim>\<open>xmltodict.parse\<close>) are plain Python values; none of them is shared and mutated.
\<close>

datatype pyval =
    PNone
  | PBool bool
  | PInt int
  | PStr string
  | PList "pyval list"
  | PDict "(string \<times> pyval) list"

datatype error = TypeError | IndexError | AttributeError | KeyError | ValueError | RemoteError

text \<open>
  A suds schema object, with the attributes the code reads: \<^verbatim>\<open>name\<close>, \<^verbatim>\<open>nillable\<close>,
  \<^verbatim>\<open>root.name\<close>, \<^verbatim>\<open>type\<close> and \<^verbatim>\<open>ref\<close> (each \<^verbatim>\<open>None\<close> or a pair of a name and a
  namespace), \<^verbatim>\<open>qname\<close> and \<^verbatim>\<open>rawchildren\<close>.
\<close>

datatype node = Node
  (name: string)
  (nillable: bool)
  (root_name: string)
  (etype: "(string \<times> string) option")
  (ref: "(string \<times> string) option")
  (qname: "string \<times> string")
  (rawchildren: "node list")

section \<open>Scalar mapping\<close>

definition xml_to_json_type :: "string \<Rightarrow> string" where
  "xml_to_json_type xml_type =
     (if xml_type = ''boolean'' then ''boolean''
      else if xml_type \<in> set [''decimal'', ''float'', ''double''] then ''number''
      else if xml_type = ''long'' then ''integer''
      else if xml_type \<in> set [''dateTime'', ''date''] then ''string''
      else ''string'')"

section \<open>Shape inference\<close>

text \<open>
  \<^verbatim>\<open>get_json_schema\<close>: \<^verbatim>\<open>element.rawchildren[0]\<close> raises IndexError on an empty list and
  \<^verbatim>\<open>element.type[0]\<close> raises TypeError when the type is \<^verbatim>\<open>None\<close>. The keys \<^verbatim>\<open>format\<close>
  and \<^verbatim>\<open>enum\<close> are only set when truthy, so an empty literal list sets no \<^verbatim>\<open>enum\<close>.
\<close>

definition get_json_schema :: "node \<Rightarrow> error + jdict" where
  "get_json_schema element =
     (let types = (if nillable element then [JStr ''null''] else []) in
      if root_name element = ''simpleType'' then
        (case rawchildren element of
           [] \<Rightarrow> Inl IndexError
         | restriction # _ \<Rightarrow>
             (let enum = map (\<lambda>x. JStr (name x)) (rawchildren restriction) in
              Inr ([(''type'', JList (types @ [JStr ''string'']))] @
                   (if enum \<noteq> [] then [(''enum'', JList enum)] else []))))
      else
        (case etype element of
           None \<Rightarrow> Inl TypeError
         | Some (xml_type, ns) \<Rightarrow>
             Inr ([(''type'', JList (types @ [JStr (xml_to_json_type xml_type)]))] @
                  (if xml_type \<in> set [''dateTime'', ''date'']
                   then [(''format'', JStr ''date-time'')] else []))))"

text \<open>
  \<^verbatim>\<open>re.match(r'ArrayOf([a-z]+)', s)\<close> matches at the start of \<open>s\<close> only; the group is
  the longest run of lower-case ASCII letters after the prefix and must not be empty.
\<close>

fun startswith :: "string \<Rightarrow> string \<Rightarrow> bool" where
  "startswith s [] = True"
| "startswith [] (p # ps) = False"
| "startswith (c # cs) (p # ps) = (c = p \<and> startswith cs ps)"

fun str_contains :: "string \<Rightarrow> string \<Rightarrow> bool" where
  "str_contains sub [] = (sub = [])"
| "str_contains sub (c # cs) = (startswith (c # cs) sub \<or> str_contains sub cs)"

definition is_lower :: "char \<Rightarrow> bool" where
  "is_lower c = (c \<in> set ''abcdefghijklmnopqrstuvwxyz'')"

definition match_array_type :: "string \<Rightarrow> string option" where
  "match_array_type s =
     (if startswith s ''ArrayOf''
      then (let tok = takeWhile is_lower (drop 7 s) in if tok = [] then None else Some tok)
      else None)"

text \<open>\<^verbatim>\<open>get_array_type\<close>: \<^verbatim>\<open>.groups()\<close> on a failed match raises AttributeError.\<close>

definition get_array_type :: "string \<Rightarrow> error + jdict" where
  "get_array_type array_type =
     (case match_array_type array_type of
        None \<Rightarrow> Inl AttributeError
      | Some xml_type \<Rightarrow>
          Inr [(''type'', JStr ''array''),
               (''items'', JDict [(''type'', JStr (xml_to_json_type xml_type))])])"

definition XMLSchema :: string where
  "XMLSchema = ''http://www.w3.org/2001/XMLSchema''"

text \<open>
  The value that one iteration of the loop of \<^verbatim>\<open>wsdl_type_to_schema\<close> assigns to
  \<^verbatim>\<open>properties[element.name]\<close>, with the four branches in the order of the source.
  The second branch is taken when the type is \<^verbatim>\<open>None\<close> and \<^verbatim>\<open>ref\<close> is set;
  with both \<^verbatim>\<open>None\<close>, \<^verbatim>\<open>element.type[1]\<close> raises TypeError.
\<close>

definition property_value :: "node \<Rightarrow> error + json" where
  "property_value element =
     (if root_name element = ''enumeration'' then map_sum id JDict (get_json_schema element)
      else (case (etype element, ref element) of
              (None, Some (ref0, ref1)) \<Rightarrow> Inr (JStr ref0)
            | (None, None) \<Rightarrow> Inl TypeError
            | (Some (type0, type1), r) \<Rightarrow>
                if type1 \<noteq> XMLSchema then
                  (if str_contains ''ArrayOfstring'' type0
                   then map_sum id JDict (get_array_type type0)
                   else Inr (JStr type0))
                else map_sum id JDict (get_json_schema element)))"

fun properties_loop :: "node list \<Rightarrow> jdict \<Rightarrow> error + jdict" where
  "properties_loop [] properties = Inr properties"
| "properties_loop (element # elements) properties =
     (case property_value element of
        Inl e \<Rightarrow> Inl e
      | Inr v \<Rightarrow> properties_loop elements (AList.update (name element) v properties))"

definition wsdl_type_to_schema :: "node \<Rightarrow> error + jdict" where
  "wsdl_type_to_schema wsdl_type =
     (if root_name wsdl_type = ''simpleType'' then get_json_schema wsdl_type
      else (case rawchildren wsdl_type of
              [] \<Rightarrow> Inl IndexError
            | body # _ \<Rightarrow>
                (case properties_loop (rawchildren body) [] of
                   Inl e \<Rightarrow> Inl e
                 | Inr properties \<Rightarrow>
                     Inr [(''type'', JList [JStr ''object'']),
                          (''additionalProperties'', JBool False),
                          (''properties'', JDict properties)])))"

section \<open>The type map and its store\<close>

text \<open>
  \<^verbatim>\<open>get_type_map\<close> binds each type name to the dict that \<^verbatim>\<open>wsdl_type_to_schema\<close>
  returned, and its second loop assigns these very dicts to properties of other
  schemas (\<^verbatim>\<open>schema['properties'][prop] = type_map[descriptor]\<close> copies nothing).
  The store maps an address to the schema object that lives there; the type map binds a
  name to an address; a property that was assigned a schema object holds \<open>JRef\<close> of
  its address. An address that was never allocated holds the empty dict and is never
  read. The \<^verbatim>\<open>properties\<close> dict of a schema is reachable through its schema only, so
  it is kept inside the schema's cell.
\<close>

type_synonym store = "nat \<Rightarrow> jdict"

type_synonym typemap = "(string \<times> nat) list"

definition in_namespace :: "string \<Rightarrow> bool" where
  "in_namespace qn =
     (str_contains ''https://bingads.microsoft.com'' qn \<or>
      str_contains ''http://schemas.datacontract.org'' qn)"

text \<open>The first loop of \<^verbatim>\<open>get_type_map\<close>; \<open>n\<close> is the next free address.\<close>

fun types_loop :: "node list \<Rightarrow> typemap \<Rightarrow> store \<Rightarrow> nat \<Rightarrow> error + (typemap \<times> store \<times> nat)" where
  "types_loop [] type_map h n = Inr (type_map, h, n)"
| "types_loop (t # ts) type_map h n =
     (if \<not> in_namespace (snd (qname t)) then types_loop ts type_map h n
      else (case wsdl_type_to_schema t of
              Inl e \<Rightarrow> Inl e
            | Inr schema \<Rightarrow>
                types_loop ts (AList.update (name t) n type_map) (h(n := schema)) (Suc n)))"

text \<open>
  The loop of \<^verbatim>\<open>fill_in_nested_types\<close> over \<^verbatim>\<open>schema['properties'].items()\<close>. Each step
  assigns to the key it is visiting only, so the items still to come are those of the
  dict before the loop.
\<close>

fun fill_loop :: "typemap \<Rightarrow> (string \<times> json) list \<Rightarrow> jdict \<Rightarrow> jdict" where
  "fill_loop type_map [] properties = properties"
| "fill_loop type_map ((prop, descriptor) # items) properties =
     fill_loop type_map items
       (case descriptor of
          JStr d \<Rightarrow>
            (case map_of type_map d of
               Some a \<Rightarrow> AList.update prop (JRef a) properties
             | None \<Rightarrow> properties)
        | _ \<Rightarrow> properties)"

text \<open>
  \<^verbatim>\<open>fill_in_nested_types(type_map, schema)\<close>, the schema given by its address.
  \<^verbatim>\<open>schema['properties']\<close> raises KeyError when the key is missing and \<^verbatim>\<open>.items()\<close>
  raises AttributeError on a value that is not a dict.
\<close>

definition fill_in_nested_types :: "typemap \<Rightarrow> nat \<Rightarrow> store \<Rightarrow> error + store" where
  "fill_in_nested_types type_map schema h =
     (case map_of (h schema) ''properties'' of
        None \<Rightarrow> Inl KeyError
      | Some (JDict properties) \<Rightarrow>
          Inr (h(schema :=
                 AList.update ''properties''
                   (JDict (fill_loop type_map properties properties)) (h schema)))
      | Some _ \<Rightarrow> Inl AttributeError)"

text \<open>The second loop of \<^verbatim>\<open>get_type_map\<close>, over \<^verbatim>\<open>type_map.items()\<close>.\<close>

fun resolve_loop :: "typemap \<Rightarrow> typemap \<Rightarrow> store \<Rightarrow> error + store" where
  "resolve_loop [] type_map h = Inr h"
| "resolve_loop ((type_name, schema) # items) type_map h =
     (if map_of (h schema) ''properties'' \<noteq> None
      then (case fill_in_nested_types type_map schema h of
              Inl e \<Rightarrow> Inl e
            | Inr h' \<Rightarrow> resolve_loop items type_map h')
      else resolve_loop items type_map h)"

definition get_type_map :: "node list \<Rightarrow> error + (typemap \<times> store)" where
  "get_type_map types =
     (case types_loop types [] (\<lambda>a. []) 0 of
        Inl e \<Rightarrow> Inl e
      | Inr (type_map, h, n) \<Rightarrow>
          (case resolve_loop type_map type_map h of
             Inl e \<Rightarrow> Inl e
           | Inr h' \<Rightarrow> Inr (type_map, h')))"

text \<open>
  Reading the result: \<open>property_of schema p\<close> is \<^verbatim>\<open>schema['properties'][p]\<close>,
  \<open>load h v\<close> is the object a value denotes (the dict at the address for a reference),
  and \<open>lookup_path h v ps\<close> follows the properties \<open>ps\<close> from \<open>v\<close>.
\<close>

definition property_of :: "jdict \<Rightarrow> string \<Rightarrow> json option" where
  "property_of schema p =
     (case map_of schema ''properties'' of
        Some (JDict properties) \<Rightarrow> map_of properties p
      | _ \<Rightarrow> None)"

fun load :: "store \<Rightarrow> json \<Rightarrow> json" where
  "load h (JRef a) = JDict (h a)"
| "load h v = v"

fun lookup_path :: "store \<Rightarrow> json \<Rightarrow> string list \<Rightarrow> json option" where
  "lookup_path h v [] = Some (load h v)"
| "lookup_path h v (p # ps) =
     (case load h v of
        JDict schema \<Rightarrow>
          (case property_of schema p of
             Some w \<Rightarrow> lookup_path h w ps
           | None \<Rightarrow> None)
      | _ \<Rightarrow> None)"

definition lookup_after :: "node list \<Rightarrow> string \<Rightarrow> string list \<Rightarrow> error + json option" where
  "lookup_after types type_name path =
     (case get_type_map types of
        Inl e \<Rightarrow> Inl e
      | Inr (type_map, h) \<Rightarrow>
          Inr (case map_of type_map type_name of
                 None \<Rightarrow> None
               | Some a \<Rightarrow> lookup_path h (JRef a) path))"

definition schema_before :: "node list \<Rightarrow> string \<Rightarrow> jdict option" where
  "schema_before types type_name =
     (case types_loop types [] (\<lambda>a. []) 0 of
        Inl e \<Rightarrow> None
      | Inr (type_map, h, n) \<Rightarrow> map_option h (map_of type_map type_name))"

text \<open>
  What the second loop does to one property value and to one schema, stated directly:
  a string that names a type of the map becomes a reference to the map's object.
\<close>

definition resolve_value :: "typemap \<Rightarrow> json \<Rightarrow> json" where
  "resolve_value type_map v =
     (case v of
        JStr d \<Rightarrow> (case map_of type_map d of Some a \<Rightarrow> JRef a | None \<Rightarrow> JStr d)
      | _ \<Rightarrow> v)"

definition resolve_schema :: "typemap \<Rightarrow> jdict \<Rightarrow> jdict" where
  "resolve_schema type_map schema =
     (case map_of schema ''properties'' of
        Some (JDict properties) \<Rightarrow>
          AList.update ''properties''
            (JDict (map (\<lambda>(k, v). (k, resolve_value type_map v)) properties)) schema
      | _ \<Rightarrow> schema)"

text \<open>
  The shape of every schema that \<^const>\<open>wsdl_type_to_schema\<close> returns: \<^verbatim>\<open>properties\<close>, when
  present, is a dict (one entry per key). The store invariant of the first loop: the
  names of the map are bound to distinct allocated addresses.
\<close>

definition wf_schema :: "jdict \<Rightarrow> bool" where
  "wf_schema schema =
     (case map_of schema ''properties'' of
        None \<Rightarrow> True
      | Some (JDict properties) \<Rightarrow> distinct (map fst properties)
      | Some _ \<Rightarrow> False)"

definition store_inv :: "typemap \<Rightarrow> store \<Rightarrow> nat \<Rightarrow> bool" where
  "store_inv tm h n =
     (distinct (map snd tm) \<and> (\<forall>a \<in> snd ` set tm. a < n) \<and> (\<forall>a. wf_schema (h a)))"

section \<open>Sync of the core objects\<close>

text \<open>
  The remote services, as the client sees them for one account: each operation takes
  its argument and fails or returns the response, already decoded by
  \<^verbatim>\<open>sobject_to_dict\<close>. \<open>create_sdk_client\<close> fails (token refresh) or succeeds for a
  service name. The operations are not code of this repository.
\<close>

record remote =
  create_sdk_client :: "string \<Rightarrow> error option"
  GetAccount :: "pyval \<Rightarrow> error + pyval"
  GetCampaignsByAccountId :: "pyval \<Rightarrow> error + pyval"
  GetAdGroupsByCampaignId :: "pyval \<Rightarrow> error + pyval"
  GetAdsByAdGroupId :: "pyval \<Rightarrow> error + pyval"

text \<open>
  Python's \<^verbatim>\<open>k in obj\<close>, \<^verbatim>\<open>obj[k]\<close> for a string \<open>k\<close>, and iteration. A dict tests and
  iterates its keys, a string its substrings and characters, a list its items; the other
  values raise TypeError, and so does indexing anything but a dict with a string.
\<close>

fun py_in :: "string \<Rightarrow> pyval \<Rightarrow> error + bool" where
  "py_in k (PDict d) = Inr (map_of d k \<noteq> None)"
| "py_in k (PStr s) = Inr (str_contains k s)"
| "py_in k (PList xs) = Inr (PStr k \<in> set xs)"
| "py_in k v = Inl TypeError"

fun py_getitem :: "pyval \<Rightarrow> string \<Rightarrow> error + pyval" where
  "py_getitem (PDict d) k = (case map_of d k of None \<Rightarrow> Inl KeyError | Some v \<Rightarrow> Inr v)"
| "py_getitem v k = Inl TypeError"

fun py_iter :: "pyval \<Rightarrow> error + pyval list" where
  "py_iter (PList xs) = Inr xs"
| "py_iter (PDict d) = Inr (map (\<lambda>kv. PStr (fst kv)) d)"
| "py_iter (PStr s) = Inr (map (\<lambda>c. PStr [c]) s)"
| "py_iter v = Inl TypeError"

text \<open>\<^verbatim>\<open>list(map(lambda x: x['Id'], xs))\<close>: the first failing lookup raises.\<close>

fun ids_of :: "pyval list \<Rightarrow> error + pyval list" where
  "ids_of [] = Inr []"
| "ids_of (x # xs) =
     (case py_getitem x ''Id'' of
        Inl e \<Rightarrow> Inl e
      | Inr i \<Rightarrow> (case ids_of xs of Inl e \<Rightarrow> Inl e | Inr is \<Rightarrow> Inr (i # is)))"

text \<open>
  \<^verbatim>\<open>singer.write_record(stream, record)\<close> appends to the output; a function of the sync
  takes the records emitted so far and returns its result (or the exception) together
  with the records emitted up to then.
\<close>

type_synonym emitted = "(string \<times> pyval) list"

definition sync_account_stream :: "remote \<Rightarrow> pyval \<Rightarrow> pyval \<Rightarrow> emitted \<Rightarrow> (error + unit) \<times> emitted" where
  "sync_account_stream r customer_id account_id out =
     (case create_sdk_client r ''CustomerManagementService'' of
        Some e \<Rightarrow> (Inl e, out)
      | None \<Rightarrow>
          (case GetAccount r account_id of
             Inl e \<Rightarrow> (Inl e, out)
           | Inr response \<Rightarrow> (Inr (), out @ [(''accounts'', response)])))"

text \<open>
  \<^verbatim>\<open>sync_campaigns\<close> returns \<^verbatim>\<open>None\<close> without the \<^verbatim>\<open>Campaign\<close> key, and else the lazy
  \<^verbatim>\<open>map\<close> over the campaigns: the result here is the list it ranges over, and the
  \<^verbatim>\<open>x['Id']\<close> of each campaign is computed when the loop of \<^verbatim>\<open>sync_ad_groups\<close> reaches it.
\<close>

definition sync_campaigns :: "remote \<Rightarrow> pyval \<Rightarrow> string list \<Rightarrow> emitted \<Rightarrow> (error + pyval list option) \<times> emitted" where
  "sync_campaigns client account_id selected_streams out =
     (case GetCampaignsByAccountId client account_id of
        Inl e \<Rightarrow> (Inl e, out)
      | Inr response_dict \<Rightarrow>
          (case py_in ''Campaign'' response_dict of
             Inl e \<Rightarrow> (Inl e, out)
           | Inr False \<Rightarrow> (Inr None, out)
           | Inr True \<Rightarrow>
               (case py_getitem response_dict ''Campaign'' of
                  Inl e \<Rightarrow> (Inl e, out)
                | Inr campaigns \<Rightarrow>
                    (case py_iter campaigns of
                       Inl e \<Rightarrow> (Inl e, out)
                     | Inr items \<Rightarrow>
                         (Inr (Some items),
                          if ''campaigns'' \<in> set selected_streams
                          then out @ map (Pair ''campaigns'') items else out)))))"

text \<open>
  \<^verbatim>\<open>sync_ad_groups\<close>: \<^verbatim>\<open>ad_group_ids.append(list(...))\<close> adds one list of ids per campaign
  that has the \<^verbatim>\<open>AdGroup\<close> key, so the result is a list of lists.
\<close>

fun sync_ad_groups :: "remote \<Rightarrow> pyval list \<Rightarrow> string list \<Rightarrow> pyval list \<Rightarrow> emitted \<Rightarrow> (error + pyval list) \<times> emitted" where
  "sync_ad_groups client [] selected_streams ad_group_ids out = (Inr ad_group_ids, out)"
| "sync_ad_groups client (campaign # campaigns) selected_streams ad_group_ids out =
     (case py_getitem campaign ''Id'' of
        Inl e \<Rightarrow> (Inl e, out)
      | Inr campaign_id \<Rightarrow>
          (case GetAdGroupsByCampaignId client campaign_id of
             Inl e \<Rightarrow> (Inl e, out)
           | Inr response_dict \<Rightarrow>
               (case py_in ''AdGroup'' response_dict of
                  Inl e \<Rightarrow> (Inl e, out)
                | Inr False \<Rightarrow> sync_ad_groups client campaigns selected_streams ad_group_ids out
                | Inr True \<Rightarrow>
                    (case py_getitem response_dict ''AdGroup'' of
                       Inl e \<Rightarrow> (Inl e, out)
                     | Inr ad_groups \<Rightarrow>
                         (case py_iter ad_groups of
                            Inl e \<Rightarrow> (Inl e, out)
                          | Inr items \<Rightarrow>
                              (let out' = (if ''ad_groups'' \<in> set selected_streams
                                           then out @ map (Pair ''ad_groups'') items else out)
                               in case ids_of items of
                                    Inl e \<Rightarrow> (Inl e, out')
                                  | Inr ids \<Rightarrow>
                                      sync_ad_groups client campaigns selected_streams
                                        (ad_group_ids @ [PList ids]) out'))))))"

text \<open>
  \<^verbatim>\<open>sync_ads\<close> passes each element of \<^verbatim>\<open>ad_group_ids\<close> as \<^verbatim>\<open>AdGroupId\<close> (the \<^verbatim>\<open>AdTypes\<close>
  argument is a constant).
\<close>

fun sync_ads :: "remote \<Rightarrow> pyval list \<Rightarrow> emitted \<Rightarrow> (error + unit) \<times> emitted" where
  "sync_ads client [] out = (Inr (), out)"
| "sync_ads client (ad_group_id # ad_group_ids) out =
     (case GetAdsByAdGroupId client ad_group_id of
        Inl e \<Rightarrow> (Inl e, out)
      | Inr response_dict \<Rightarrow>
          (case py_in ''Ad'' response_dict of
             Inl e \<Rightarrow> (Inl e, out)
           | Inr False \<Rightarrow> sync_ads client ad_group_ids out
           | Inr True \<Rightarrow>
               (case py_getitem response_dict ''Ad'' of
                  Inl e \<Rightarrow> (Inl e, out)
                | Inr ads \<Rightarrow>
                    (case py_iter ads of
                       Inl e \<Rightarrow> (Inl e, out)
                     | Inr items \<Rightarrow>
                         sync_ads client ad_group_ids (out @ map (Pair ''ads'') items)))))"

definition sync_core_objects :: "remote \<Rightarrow> pyval \<Rightarrow> pyval \<Rightarrow> string list \<Rightarrow> emitted \<Rightarrow> (error + unit) \<times> emitted" where
  "sync_core_objects r customer_id account_id selected_streams out =
     (case (if ''accounts'' \<in> set selected_streams
            then sync_account_stream r customer_id account_id out else (Inr (), out)) of
        (Inl e, out1) \<Rightarrow> (Inl e, out1)
      | (Inr u, out1) \<Rightarrow>
          (case create_sdk_client r ''CampaignManagementService'' of
             Some e \<Rightarrow> (Inl e, out1)
           | None \<Rightarrow>
               (case sync_campaigns r account_id selected_streams out1 of
                  (Inl e, out2) \<Rightarrow> (Inl e, out2)
                | (Inr None, out2) \<Rightarrow> (Inr (), out2)
                | (Inr (Some campaign_ids), out2) \<Rightarrow>
                    if ''ad_groups'' \<in> set selected_streams \<or> ''ads'' \<in> set selected_streams
                    then (case sync_ad_groups r campaign_ids selected_streams [] out2 of
                            (Inl e, out3) \<Rightarrow> (Inl e, out3)
                          | (Inr ad_group_ids, out3) \<Rightarrow>
                              if ''ads'' \<in> set selected_streams
                              then sync_ads r ad_group_ids out3 else (Inr (), out3))
                    else (Inr (), out2))))"


section \<open>Fetching the ad accounts\<close>

text \<open>
  \<^verbatim>\<open>get_field(*fields, obj, default)\<close>, the default written \<open>dflt\<close>: \<^verbatim>\<open>obj.get(field)\<close>
  raises AttributeError on anything but a dict, and is \<^verbatim>\<open>None\<close> for a missing key.
\<close>

fun get_field :: "string list \<Rightarrow> pyval \<Rightarrow> pyval \<Rightarrow> error + pyval" where
  "get_field [] obj dflt = Inr obj"
| "get_field (field # rest) obj dflt =
     (case obj of
        PDict d \<Rightarrow>
          (case map_of d field of
             None \<Rightarrow> Inr dflt
           | Some PNone \<Rightarrow> Inr dflt
           | Some v \<Rightarrow> get_field rest v dflt)
      | _ \<Rightarrow> Inl AttributeError)"









text \<open>
  The words of the description of \<^verbatim>\<open>get_field\<close>, as definitions of their own:
  \<open>walk fields obj\<close> is the value reached at the end of the chain, and nothing as soon
  as a field is missing or maps to \<^verbatim>\<open>None\<close>; \<open>nested_dicts fields obj\<close> says that every
  object in which a field is looked up is a dict.
\<close>

fun walk :: "string list \<Rightarrow> pyval \<Rightarrow> pyval option" where
  "walk [] obj = Some obj"
| "walk (field # rest) (PDict d) =
     (case map_of d field of
        None \<Rightarrow> None
      | Some v \<Rightarrow> if v = PNone then None else walk rest v)"
| "walk (field # rest) obj = None"

fun nested_dicts :: "string list \<Rightarrow> pyval \<Rightarrow> bool" where
  "nested_dicts [] obj = True"
| "nested_dicts (field # rest) (PDict d) =
     (case map_of d field of
        None \<Rightarrow> True
      | Some v \<Rightarrow> v = PNone \<or> nested_dicts rest v)"
| "nested_dicts (field # rest) obj = False"

section \<open>Example services\<close>

text \<open>
  Type metadata as suds delivers it: a complex type holds a sequence that holds the
  elements; a simple type holds a restriction that holds the enumeration literals.
\<close>

definition tns :: string where
  "tns = ''https://bingads.microsoft.com/Customer/v13''"

definition xsd_element :: "string \<Rightarrow> string \<Rightarrow> node" where
  "xsd_element n t = Node n False ''element'' (Some (t, XMLSchema)) None (n, tns) []"

definition typed_element :: "string \<Rightarrow> string \<Rightarrow> node" where
  "typed_element n t = Node n False ''element'' (Some (t, tns)) None (n, tns) []"

definition enumeration :: "string \<Rightarrow> node" where
  "enumeration v = Node v False ''enumeration'' None None (v, tns) []"

definition restriction :: "string list \<Rightarrow> node" where
  "restriction literals =
     Node [] False ''restriction'' None None ([], tns) (map enumeration literals)"

definition complex_type :: "string \<Rightarrow> node list \<Rightarrow> node" where
  "complex_type n elements =
     Node n False ''complexType'' None None (n, tns)
       [Node [] False ''sequence'' None None ([], tns) elements]"

definition simple_type :: "string \<Rightarrow> string list \<Rightarrow> node" where
  "simple_type n literals = Node n False ''simpleType'' None None (n, tns) [restriction literals]"

text \<open>
  \<open>Account\<close> with \<open>Id: long\<close>, \<open>Name: string\<close> and an enumeration \<open>Status\<close>, three ways:
  the child is an enumeration node; the child is an element with an anonymous simple
  type inside; the child is an element typed by a simple type that the service names.
\<close>

definition account_enumeration_child :: node where
  "account_enumeration_child =
     complex_type ''Account''
       [xsd_element ''Id'' ''long'', xsd_element ''Name'' ''string'',
        Node ''Status'' False ''enumeration'' None None (''Status'', tns)
          [restriction [''Active'', ''Paused'']]]"

definition account_anonymous_type :: node where
  "account_anonymous_type =
     complex_type ''Account''
       [xsd_element ''Id'' ''long'', xsd_element ''Name'' ''string'',
        Node ''Status'' False ''element'' None None (''Status'', tns)
          [Node [] False ''simpleType'' None None ([], tns) [restriction [''Active'', ''Paused'']]]]"

definition account_named_type :: "node list" where
  "account_named_type =
     [complex_type ''Account''
        [xsd_element ''Id'' ''long'', xsd_element ''Name'' ''string'',
         typed_element ''Status'' ''AccountStatus''],
      simple_type ''AccountStatus'' [''Active'', ''Paused'']]"

text \<open>A chain: \<open>A\<close> refers to \<open>B\<close>, \<open>B\<close> refers to \<open>C\<close>, declared in this order.\<close>

definition chain_service :: "node list" where
  "chain_service =
     [complex_type ''A'' [xsd_element ''Id'' ''long'', typed_element ''b'' ''B''],
      complex_type ''B'' [typed_element ''c'' ''C''],
      complex_type ''C'' [xsd_element ''When'' ''dateTime'']]"

definition pair_service :: "node list" where
  "pair_service =
     [complex_type ''A'' [xsd_element ''Id'' ''long'', typed_element ''b'' ''B''],
      complex_type ''B'' [xsd_element ''Name'' ''string'']]"

definition gap_service :: "node list" where
  "gap_service =
     [complex_type ''A'' [typed_element ''b'' ''B'', typed_element ''x'' ''Missing''],
      complex_type ''B'' [xsd_element ''Name'' ''string'']]"







section \<open>The second loop resolves every schema of the map in place\<close>

text \<open>
  One run of the loop of \<^const>\<open>fill_in_nested_types\<close> maps \<^const>\<open>resolve_value\<close> over the
  properties, and the second loop of \<^const>\<open>get_type_map\<close> does so at every address of the
  map, each address once.
\<close>

lemma update_middle:
  "k \<notin> fst ` set pre \<Longrightarrow> AList.update k x (pre @ (k, v) # rest) = pre @ (k, x) # rest"
  by (induction pre) auto

lemma fill_loop_step:
  "k \<notin> fst ` set pre \<Longrightarrow>
   (case v of
      JStr d \<Rightarrow> (case map_of tm d of Some a \<Rightarrow> AList.update k (JRef a) (pre @ (k, v) # rest)
                 | None \<Rightarrow> pre @ (k, v) # rest)
    | _ \<Rightarrow> pre @ (k, v) # rest) = pre @ (k, resolve_value tm v) # rest"
  by (cases v) (auto simp: resolve_value_def update_middle split: option.splits)

lemma fill_loop_append:
  "distinct (map fst (pre @ items)) \<Longrightarrow>
   fill_loop tm items (pre @ items) = pre @ map (\<lambda>(k, v). (k, resolve_value tm v)) items"
proof (induction items arbitrary: pre)
  case Nil
  then show ?case by simp
next
  case (Cons kv items)
  obtain k v where kv: "kv = (k, v)" by (cases kv)
  from Cons.prems kv have notin: "k \<notin> fst ` set pre" by auto
  from Cons.prems kv have d: "distinct (map fst ((pre @ [(k, resolve_value tm v)]) @ items))"
    by auto
  have "fill_loop tm (kv # items) (pre @ kv # items) =
        fill_loop tm items ((pre @ [(k, resolve_value tm v)]) @ items)"
    using fill_loop_step [OF notin, where v = v and tm = tm and rest = items] by (simp add: kv)
  also have "\<dots> = (pre @ [(k, resolve_value tm v)]) @ map (\<lambda>(k, v). (k, resolve_value tm v)) items"
    by (rule Cons.IH [OF d])
  finally show ?case by (simp add: kv)
qed

lemma fill_loop_all:
  "distinct (map fst ps) \<Longrightarrow> fill_loop tm ps ps = map (\<lambda>(k, v). (k, resolve_value tm v)) ps"
  using fill_loop_append [of "[]" ps tm] by simp

lemma fill_in_nested_types_resolve:
  assumes "wf_schema (h a)" and "map_of (h a) ''properties'' \<noteq> None"
  shows "fill_in_nested_types tm a h = Inr (h(a := resolve_schema tm (h a)))"
  using assms
  by (auto simp: fill_in_nested_types_def wf_schema_def resolve_schema_def fill_loop_all
           split: option.splits json.splits)

lemma resolve_schema_no_properties:
  "map_of s ''properties'' = None \<Longrightarrow> resolve_schema tm s = s"
  by (simp add: resolve_schema_def)

lemma resolve_loop_resolve:
  assumes "distinct (map snd items)" and "\<forall>a \<in> snd ` set items. wf_schema (h a)"
  shows "resolve_loop items tm h =
         Inr (\<lambda>a. if a \<in> snd ` set items then resolve_schema tm (h a) else h a)"
  using assms
proof (induction items arbitrary: h)
  case Nil
  then show ?case by simp
next
  case (Cons item items)
  obtain type_name a where item: "item = (type_name, a)" by (cases item)
  from Cons.prems item have a_new: "a \<notin> snd ` set items" and d: "distinct (map snd items)"
    and wf_a: "wf_schema (h a)" and wf_rest: "\<forall>b \<in> snd ` set items. wf_schema (h b)"
    by auto
  let ?h' = "h(a := resolve_schema tm (h a))"
  have step: "resolve_loop (item # items) tm h = resolve_loop items tm ?h'"
  proof (cases "map_of (h a) ''properties'' = None")
    case True
    then have "?h' = h" by (simp add: resolve_schema_no_properties)
    with True show ?thesis by (simp add: item)
  next
    case False
    then show ?thesis
      using fill_in_nested_types_resolve [where h = h and a = a and tm = tm] wf_a by (simp add: item)
  qed
  have wf': "\<forall>b \<in> snd ` set items. wf_schema (?h' b)"
    using wf_rest a_new by auto
  have "resolve_loop items tm ?h' =
        Inr (\<lambda>b. if b \<in> snd ` set items then resolve_schema tm (?h' b) else ?h' b)"
    by (rule Cons.IH [OF d wf'])
  also have "(\<lambda>b. if b \<in> snd ` set items then resolve_schema tm (?h' b) else ?h' b) =
             (\<lambda>b. if b \<in> snd ` set (item # items) then resolve_schema tm (h b) else h b)"
    using a_new by (auto simp: item fun_eq_iff)
  finally have rest: "resolve_loop items tm ?h' =
    Inr (\<lambda>b. if b \<in> snd ` set (item # items) then resolve_schema tm (h b) else h b)" .
  show ?case by (rule trans [OF step rest])
qed

lemma properties_loop_distinct:
  "properties_loop elements ps = Inr ps' \<Longrightarrow> distinct (map fst ps) \<Longrightarrow> distinct (map fst ps')"
  by (induction elements arbitrary: ps) (auto simp: distinct_update split: sum.splits)

lemma get_json_schema_no_properties:
  "get_json_schema t = Inr s \<Longrightarrow> map_of s ''properties'' = None"
  by (auto simp: get_json_schema_def Let_def split: if_splits list.splits option.splits)

lemma wsdl_type_to_schema_wf:
  "wsdl_type_to_schema t = Inr s \<Longrightarrow> wf_schema s"
  by (auto simp: wsdl_type_to_schema_def wf_schema_def get_json_schema_no_properties
           dest: properties_loop_distinct split: if_splits list.splits sum.splits)

lemma update_fresh_values:
  "snd ` set (AList.update k n tm) \<subseteq> insert n (snd ` set tm)"
  by (induction tm) auto

lemma update_fresh_distinct:
  "distinct (map snd tm) \<Longrightarrow> n \<notin> snd ` set tm \<Longrightarrow> distinct (map snd (AList.update k n tm))"
proof (induction tm)
  case Nil
  then show ?case by simp
next
  case (Cons kv tm)
  then show ?case
    using update_fresh_values [of k n tm] by (cases kv) auto
qed

lemma store_inv_step:
  assumes "store_inv tm h n" and "wf_schema s"
  shows "store_inv (AList.update k n tm) (h(n := s)) (Suc n)"
proof -
  from assms have fresh: "n \<notin> snd ` set tm" by (auto simp: store_inv_def)
  have "\<forall>a \<in> snd ` set (AList.update k n tm). a < Suc n"
    using update_fresh_values [of k n tm] assms(1) by (fastforce simp: store_inv_def)
  with assms fresh show ?thesis
    by (simp add: store_inv_def update_fresh_distinct)
qed

lemma types_loop_inv:
  "types_loop ts tm h n = Inr (tm', h', n') \<Longrightarrow> store_inv tm h n \<Longrightarrow> store_inv tm' h' n'"
proof (induction ts arbitrary: tm h n)
  case Nil
  then show ?case by simp
next
  case (Cons t ts)
  show ?case
  proof (cases "in_namespace (snd (qname t))")
    case False
    with Cons show ?thesis by simp
  next
    case True
    with Cons.prems(1) obtain s where s: "wsdl_type_to_schema t = Inr s"
      and rest: "types_loop ts (AList.update (name t) n tm) (h(n := s)) (Suc n) = Inr (tm', h', n')"
      by (auto split: sum.splits)
    from s have "wf_schema s" by (rule wsdl_type_to_schema_wf)
    with Cons.prems(2) have "store_inv (AList.update (name t) n tm) (h(n := s)) (Suc n)"
      by (rule store_inv_step)
    with rest show ?thesis by (rule Cons.IH)
  qed
qed

lemma store_inv_init: "store_inv [] (\<lambda>a. []) 0"
  by (simp add: store_inv_def wf_schema_def)

lemma get_type_map_resolve:
  assumes "types_loop types [] (\<lambda>a. []) 0 = Inr (tm, h, n)"
  shows "get_type_map types =
         Inr (tm, \<lambda>a. if a \<in> snd ` set tm then resolve_schema tm (h a) else h a)"
proof -
  from assms store_inv_init have "store_inv tm h n" by (rule types_loop_inv)
  then have "resolve_loop tm tm h =
             Inr (\<lambda>a. if a \<in> snd ` set tm then resolve_schema tm (h a) else h a)"
    by (intro resolve_loop_resolve) (auto simp: store_inv_def)
  with assms show ?thesis by (simp add: get_type_map_def)
qed

lemma property_of_resolve_schema:
  "property_of (resolve_schema tm s) p = map_option (resolve_value tm) (property_of s p)"
proof (cases "map_of s ''properties''")
  case None
  then show ?thesis by (simp add: property_of_def resolve_schema_def)
next
  case (Some v)
  show ?thesis
  proof (cases v)
    case (JDict ps)
    have "map_of (map (\<lambda>(k, v). (k, resolve_value tm v)) ps) p = map_option (resolve_value tm) (map_of ps p)"
      by (induction ps) auto
    with Some JDict show ?thesis
      by (simp add: property_of_def resolve_schema_def update_conv')
  qed (use Some in \<open>simp_all add: property_of_def resolve_schema_def\<close>)
qed

lemma schema_beforeD:
  assumes "schema_before types t = Some s"
  obtains tm h n a where "types_loop types [] (\<lambda>a. []) 0 = Inr (tm, h, n)"
    and "map_of tm t = Some a" and "h a = s"
  using assms by (auto simp: schema_before_def split: sum.splits)

lemma lookup_after_resolved:
  assumes pass1: "types_loop types [] (\<lambda>a. []) 0 = Inr (tm, h, n)"
    and t: "map_of tm t = Some a"
  shows "lookup_after types t [] = Inr (Some (JDict (resolve_schema tm (h a))))"
    and "lookup_after types t [p] =
         Inr (case property_of (h a) p of
                None \<Rightarrow> None
              | Some v \<Rightarrow>
                  (case resolve_value tm v of
                     JRef b \<Rightarrow> Some (JDict (if b \<in> snd ` set tm then resolve_schema tm (h b) else h b))
                   | w \<Rightarrow> Some w))"
proof -
  from t have a: "a \<in> snd ` set tm" by (force dest: map_of_SomeD)
  show "lookup_after types t [] = Inr (Some (JDict (resolve_schema tm (h a))))"
    using get_type_map_resolve [OF pass1] t a by (simp add: lookup_after_def)
  show "lookup_after types t [p] =
         Inr (case property_of (h a) p of
                None \<Rightarrow> None
              | Some v \<Rightarrow>
                  (case resolve_value tm v of
                     JRef b \<Rightarrow> Some (JDict (if b \<in> snd ` set tm then resolve_schema tm (h b) else h b))
                   | w \<Rightarrow> Some w))"
    using get_type_map_resolve [OF pass1] t a
    by (auto simp: lookup_after_def property_of_resolve_schema split: option.splits json.splits)
qed

lemma resolve_schema_id:
  assumes wf: "wf_schema s" and prim: "\<forall>q d. property_of s q \<noteq> Some (JStr d)"
  shows "resolve_schema tm s = s"
proof (cases "map_of s ''properties''")
  case None
  then show ?thesis by (simp add: resolve_schema_def)
next
  case (Some v)
  show ?thesis
  proof (cases v)
    case (JDict ps)
    from wf Some JDict have d: "distinct (map fst ps)" by (simp add: wf_schema_def)
    have "resolve_value tm w = w" if "(k, w) \<in> set ps" for k w
    proof -
      from d that have "map_of ps k = Some w" by simp
      with Some JDict have "property_of s k = Some w" by (simp add: property_of_def)
      with prim show ?thesis by (cases w) (auto simp: resolve_value_def)
    qed
    then have "map (\<lambda>(k, v). (k, resolve_value tm v)) ps = ps"
      by (induction ps) auto
    with Some JDict show ?thesis by (simp add: resolve_schema_def update_triv)
  qed (use Some in \<open>simp_all add: resolve_schema_def\<close>)
qed

lemma types_loop_store_inv:
  "types_loop types [] (\<lambda>a. []) 0 = Inr (tm, h, n) \<Longrightarrow> store_inv tm h n"
  by (rule types_loop_inv [OF _ store_inv_init])

lemmas fixture_defs = tns_def xsd_element_def typed_element_def enumeration_def restriction_def
  complex_type_def simple_type_def

lemmas schema_defs = wsdl_type_to_schema_def property_value_def get_json_schema_def
  get_array_type_def match_array_type_def is_lower_def xml_to_json_type_def XMLSchema_def
  in_namespace_def

lemmas type_map_defs = get_type_map_def schema_before_def lookup_after_def
  fill_in_nested_types_def property_of_def

section \<open>Reference chains\<close>

text \<open>
  C1, as the code has it. For every chain of three types of the map where a property
  \<open>pb\<close> of \<open>A\<close> is the placeholder naming \<open>B\<close> and a property \<open>pc\<close> of \<open>B\<close> is the
  placeholder naming \<open>C\<close>: once \<^const>\<open>get_type_map\<close> has returned, following \<open>pb\<close> and
  then \<open>pc\<close> from \<open>A\<close> reaches a schema object, and it is the object that the map binds
  to \<open>C\<close>. The property of \<open>A\<close> holds the map's object for \<open>B\<close> itself, not a copy, so
  the assignment made later to the property of \<open>B\<close> shows through it: no placeholder
  for \<open>C\<close> is left, whatever the order of the types.
\<close>

theorem chain_resolved_through_shared_object:
  assumes "schema_before types A = Some sa" and "property_of sa pb = Some (JStr B)"
    and "schema_before types B = Some sb" and "property_of sb pc = Some (JStr C)"
    and "schema_before types C = Some sc"
  shows "\<exists>sc'. lookup_after types A [pb, pc] = Inr (Some (JDict sc')) \<and>
               lookup_after types C [] = Inr (Some (JDict sc'))"
proof -
  from assms(1) obtain tm h n a where pass1: "types_loop types [] (\<lambda>a. []) 0 = Inr (tm, h, n)"
    and a: "map_of tm A = Some a" "h a = sa" by (rule schema_beforeD)
  from assms(3) pass1 obtain b where b: "map_of tm B = Some b" "h b = sb"
    by (auto simp: schema_before_def)
  from assms(5) pass1 obtain c where c: "map_of tm C = Some c" "h c = sc"
    by (auto simp: schema_before_def)
  from a b c have mem: "a \<in> snd ` set tm" "b \<in> snd ` set tm" "c \<in> snd ` set tm"
    by (force dest: map_of_SomeD)+
  let ?h' = "\<lambda>x. if x \<in> snd ` set tm then resolve_schema tm (h x) else h x"
  have pa: "property_of (?h' a) pb = Some (JRef b)"
    using mem a b assms(2) by (simp add: property_of_resolve_schema resolve_value_def)
  have pb: "property_of (?h' b) pc = Some (JRef c)"
    using mem b c assms(4) by (simp add: property_of_resolve_schema resolve_value_def)
  have "lookup_path ?h' (JRef a) [pb, pc] = Some (JDict (?h' c))"
    using pa pb by simp
  then have "lookup_after types A [pb, pc] = Inr (Some (JDict (?h' c)))"
    using get_type_map_resolve [OF pass1] a by (simp add: lookup_after_def)
  moreover have "lookup_after types C [] = Inr (Some (JDict (?h' c)))"
    using get_type_map_resolve [OF pass1] c by (simp add: lookup_after_def)
  ultimately show ?thesis by blast
qed

theorem chain_resolved_witness:
  "schema_before chain_service ''A'' =
     Some [(''type'', JList [JStr ''object'']), (''additionalProperties'', JBool False),
           (''properties'', JDict [(''Id'', JDict [(''type'', JList [JStr ''integer''])]),
                                   (''b'', JStr ''B'')])] \<and>
   schema_before chain_service ''B'' =
     Some [(''type'', JList [JStr ''object'']), (''additionalProperties'', JBool False),
           (''properties'', JDict [(''c'', JStr ''C'')])] \<and>
   schema_before chain_service ''C'' \<noteq> None \<and>
   lookup_after chain_service ''A'' [''b'', ''c''] = lookup_after chain_service ''C'' []"
proof -
  let ?sa = "[(''type'', JList [JStr ''object'']), (''additionalProperties'', JBool False),
              (''properties'', JDict [(''Id'', JDict [(''type'', JList [JStr ''integer''])]),
                                      (''b'', JStr ''B'')])]"
  let ?sb = "[(''type'', JList [JStr ''object'']), (''additionalProperties'', JBool False),
              (''properties'', JDict [(''c'', JStr ''C'')])]"
  let ?sc = "[(''type'', JList [JStr ''object'']), (''additionalProperties'', JBool False),
              (''properties'', JDict [(''When'', JDict [(''type'', JList [JStr ''string'']),
                                                        (''format'', JStr ''date-time'')])])]"
  have a: "schema_before chain_service ''A'' = Some ?sa"
    by (simp add: chain_service_def fixture_defs schema_defs schema_before_def)
  have b: "schema_before chain_service ''B'' = Some ?sb"
    by (simp add: chain_service_def fixture_defs schema_defs schema_before_def)
  have c: "schema_before chain_service ''C'' = Some ?sc"
    by (simp add: chain_service_def fixture_defs schema_defs schema_before_def)
  have pb: "property_of ?sa ''b'' = Some (JStr ''B'')" by (simp add: property_of_def)
  have pc: "property_of ?sb ''c'' = Some (JStr ''C'')" by (simp add: property_of_def)
  from chain_resolved_through_shared_object [OF a pb b pc c]
  have "lookup_after chain_service ''A'' [''b'', ''c''] = lookup_after chain_service ''C'' []"
    by auto
  with a b c show ?thesis by simp
qed

text \<open>
  The claim as it is written fails on the chain declared in the order \<open>A\<close>, \<open>B\<close>, \<open>C\<close>:
  after the pass, the fragment in the property of \<open>A\<close> for \<open>B\<close> holds the fragment of
  \<open>C\<close> under \<open>c\<close>, not the string \<open>C\<close>.
\<close>

theorem chain_placeholder_counterexample:
  "lookup_after chain_service ''A'' [''b'', ''c''] =
     Inr (Some (JDict [(''type'', JList [JStr ''object'']), (''additionalProperties'', JBool False),
                       (''properties'', JDict [(''When'', JDict [(''type'', JList [JStr ''string'']),
                                                                 (''format'', JStr ''date-time'')])])])) \<and>
   lookup_after chain_service ''A'' [''b'', ''c''] \<noteq> Inr (Some (JStr ''C''))"
  by (simp add: chain_service_def fixture_defs schema_defs type_map_defs)

section \<open>References to absent types\<close>

text \<open>
  C3. Given the type map of the first loop with a placeholder \<open>d\<close> in property \<open>p\<close> of
  a type \<open>t\<close>: \<^const>\<open>get_type_map\<close> returns a map (the second loop raises nothing); when
  \<open>d\<close> is not a name of the map the property still holds the bare string \<open>d\<close>; when it
  is, the property holds the map's entry for \<open>d\<close>.
\<close>

theorem absent_reference_left_in_place:
  assumes "schema_before types t = Some s" and "property_of s p = Some (JStr d)"
  shows "(\<exists>type_map h. get_type_map types = Inr (type_map, h)) \<and>
         (schema_before types d = None \<longrightarrow> lookup_after types t [p] = Inr (Some (JStr d))) \<and>
         (schema_before types d \<noteq> None \<longrightarrow> lookup_after types t [p] = lookup_after types d [])"
proof -
  from assms(1) obtain tm h n a where pass1: "types_loop types [] (\<lambda>a. []) 0 = Inr (tm, h, n)"
    and a: "map_of tm t = Some a" "h a = s" by (rule schema_beforeD)
  have before: "schema_before types d = map_option h (map_of tm d)"
    using pass1 by (simp add: schema_before_def)
  have 1: "\<exists>type_map h. get_type_map types = Inr (type_map, h)"
    using get_type_map_resolve [OF pass1] by blast
  have 2: "lookup_after types t [p] = Inr (Some (JStr d))" if "schema_before types d = None"
    using that before lookup_after_resolved(2) [OF pass1 a(1), of p] a assms(2)
    by (simp add: resolve_value_def)
  have 3: "lookup_after types t [p] = lookup_after types d []" if "schema_before types d \<noteq> None"
  proof -
    from that before obtain b where b: "map_of tm d = Some b" by auto
    then have "b \<in> snd ` set tm" by (force dest: map_of_SomeD)
    then show ?thesis
      using lookup_after_resolved(2) [OF pass1 a(1), of p] lookup_after_resolved(1) [OF pass1 b]
        a assms(2) b
      by (simp add: resolve_value_def)
  qed
  from 1 2 3 show ?thesis by blast
qed

theorem absent_reference_witness:
  "schema_before gap_service ''A'' =
     Some [(''type'', JList [JStr ''object'']), (''additionalProperties'', JBool False),
           (''properties'', JDict [(''b'', JStr ''B''), (''x'', JStr ''Missing'')])] \<and>
   schema_before gap_service ''Missing'' = None \<and>
   schema_before gap_service ''B'' \<noteq> None \<and>
   (\<exists>type_map h. get_type_map gap_service = Inr (type_map, h)) \<and>
   lookup_after gap_service ''A'' [''x''] = Inr (Some (JStr ''Missing'')) \<and>
   lookup_after gap_service ''A'' [''b''] = lookup_after gap_service ''B'' []"
proof -
  let ?sa = "[(''type'', JList [JStr ''object'']), (''additionalProperties'', JBool False),
              (''properties'', JDict [(''b'', JStr ''B''), (''x'', JStr ''Missing'')])]"
  have a: "schema_before gap_service ''A'' = Some ?sa"
    by (simp add: gap_service_def fixture_defs schema_defs schema_before_def)
  have m: "schema_before gap_service ''Missing'' = None"
    by (simp add: gap_service_def fixture_defs schema_defs schema_before_def)
  have b: "schema_before gap_service ''B'' \<noteq> None"
    by (simp add: gap_service_def fixture_defs schema_defs schema_before_def)
  have px: "property_of ?sa ''x'' = Some (JStr ''Missing'')" by (simp add: property_of_def)
  have pb: "property_of ?sa ''b'' = Some (JStr ''B'')" by (simp add: property_of_def)
  from absent_reference_left_in_place [OF a px] absent_reference_left_in_place [OF a pb] a m b
  show ?thesis by blast
qed

section \<open>A reference to an all-primitive type\<close>

text \<open>
  C7. When a property \<open>p\<close> of \<open>A\<close> is the placeholder naming \<open>B\<close> and no property of
  \<open>B\<close> is a placeholder string, \<^const>\<open>get_type_map\<close> puts the full object fragment of \<open>B\<close>
  under \<open>p\<close>, and the schema of \<open>B\<close> after the second loop is its schema after the first.
\<close>

theorem reference_resolved_target_unchanged:
  assumes "schema_before types A = Some sa" and "property_of sa p = Some (JStr B)"
    and "schema_before types B = Some sb" and "\<forall>q d. property_of sb q \<noteq> Some (JStr d)"
  shows "lookup_after types A [p] = Inr (Some (JDict sb)) \<and>
         lookup_after types B [] = Inr (Some (JDict sb))"
proof -
  from assms(1) obtain tm h n a where pass1: "types_loop types [] (\<lambda>a. []) 0 = Inr (tm, h, n)"
    and a: "map_of tm A = Some a" "h a = sa" by (rule schema_beforeD)
  from assms(3) pass1 obtain b where b: "map_of tm B = Some b" "h b = sb"
    by (auto simp: schema_before_def)
  from pass1 have "store_inv tm h n" by (rule types_loop_store_inv)
  then have "wf_schema sb" using b by (auto simp: store_inv_def)
  then have same: "resolve_schema tm sb = sb" using assms(4) by (rule resolve_schema_id)
  from b have "b \<in> snd ` set tm" by (force dest: map_of_SomeD)
  then show ?thesis
    using lookup_after_resolved(2) [OF pass1 a(1), of p] lookup_after_resolved(1) [OF pass1 b(1)]
      a b assms(2) same
    by (simp add: resolve_value_def)
qed

theorem reference_resolved_witness:
  "schema_before pair_service ''A'' =
     Some [(''type'', JList [JStr ''object'']), (''additionalProperties'', JBool False),
           (''properties'', JDict [(''Id'', JDict [(''type'', JList [JStr ''integer''])]),
                                   (''b'', JStr ''B'')])] \<and>
   schema_before pair_service ''B'' =
     Some [(''type'', JList [JStr ''object'']), (''additionalProperties'', JBool False),
           (''properties'', JDict [(''Name'', JDict [(''type'', JList [JStr ''string''])])])] \<and>
   lookup_after pair_service ''A'' [''b''] =
     Inr (Some (JDict [(''type'', JList [JStr ''object'']), (''additionalProperties'', JBool False),
                       (''properties'', JDict [(''Name'', JDict [(''type'', JList [JStr ''string''])])])])) \<and>
   lookup_after pair_service ''B'' [] =
     Inr (Some (JDict [(''type'', JList [JStr ''object'']), (''additionalProperties'', JBool False),
                       (''properties'', JDict [(''Name'', JDict [(''type'', JList [JStr ''string''])])])]))"
proof -
  let ?sa = "[(''type'', JList [JStr ''object'']), (''additionalProperties'', JBool False),
              (''properties'', JDict [(''Id'', JDict [(''type'', JList [JStr ''integer''])]),
                                      (''b'', JStr ''B'')])]"
  let ?sb = "[(''type'', JList [JStr ''object'']), (''additionalProperties'', JBool False),
              (''properties'', JDict [(''Name'', JDict [(''type'', JList [JStr ''string''])])])]"
  have a: "schema_before pair_service ''A'' = Some ?sa"
    by (simp add: pair_service_def fixture_defs schema_defs schema_before_def)
  have b: "schema_before pair_service ''B'' = Some ?sb"
    by (simp add: pair_service_def fixture_defs schema_defs schema_before_def)
  have pb: "property_of ?sa ''b'' = Some (JStr ''B'')" by (simp add: property_of_def)
  have prim: "\<forall>q d. property_of ?sb q \<noteq> Some (JStr d)" by (simp add: property_of_def)
  from reference_resolved_target_unchanged [OF a pb b prim] a b
  show ?thesis by simp
qed

section \<open>Scalar mapping of a type name\<close>

text \<open>
  C5, as the code has it. \<^const>\<open>xml_to_json_type\<close> is a total function of the type name:
  \<open>boolean\<close> gives \<open>boolean\<close>; \<open>decimal\<close>, \<open>float\<close> and \<open>double\<close> give \<open>number\<close>;
  \<open>long\<close>, and no other name, gives \<open>integer\<close>; \<open>dateTime\<close>, \<open>date\<close> and every other
  name give \<open>string\<close>.
\<close>

theorem xml_to_json_type_cases:
  "xml_to_json_type ''boolean'' = ''boolean'' \<and>
   xml_to_json_type ''decimal'' = ''number'' \<and>
   xml_to_json_type ''float'' = ''number'' \<and>
   xml_to_json_type ''double'' = ''number'' \<and>
   xml_to_json_type ''long'' = ''integer'' \<and>
   xml_to_json_type ''dateTime'' = ''string'' \<and>
   xml_to_json_type ''date'' = ''string'' \<and>
   (\<forall>t. t \<notin> {''boolean'', ''decimal'', ''float'', ''double'', ''long''} \<longrightarrow>
        xml_to_json_type t = ''string'') \<and>
   (\<forall>t. xml_to_json_type t = ''integer'' \<longrightarrow> t = ''long'')"
  by (simp add: xml_to_json_type_def)

theorem xml_to_json_type_witness:
  "''unsignedByte'' \<notin> {''boolean'', ''decimal'', ''float'', ''double'', ''long''} \<and>
   xml_to_json_type ''unsignedByte'' = ''string'' \<and>
   xml_to_json_type ''long'' = ''integer''"
proof -
  have notin: "''unsignedByte'' \<notin> {''boolean'', ''decimal'', ''float'', ''double'', ''long''}"
    by simp
  from xml_to_json_type_cases
  have other: "\<forall>t. t \<notin> {''boolean'', ''decimal'', ''float'', ''double'', ''long''} \<longrightarrow>
                   xml_to_json_type t = ''string''"
    by (elim conjE)
  from xml_to_json_type_cases
  have long: "xml_to_json_type ''long'' = ''integer''"
    by (elim conjE)
  from other have "''unsignedByte'' \<notin> {''boolean'', ''decimal'', ''float'', ''double'', ''long''} \<longrightarrow>
                   xml_to_json_type ''unsignedByte'' = ''string''"
    by (rule spec)
  from this notin have "xml_to_json_type ''unsignedByte'' = ''string''" by (rule mp)
  with notin long show ?thesis by (intro conjI)
qed

text \<open>The integral type name \<open>int\<close> is not mapped to \<open>integer\<close>.\<close>

theorem integral_type_counterexample:
  "xml_to_json_type ''int'' = ''string'' \<and> xml_to_json_type ''int'' \<noteq> ''integer''"
  by (simp add: xml_to_json_type_def)

section \<open>Nillable dateTime elements\<close>

text \<open>
  C6. For every nillable element of the built-in type \<open>dateTime\<close> the fragment is
  \<open>{type: [null, string], format: date-time}\<close>, from \<^const>\<open>get_json_schema\<close> and as the
  property value that \<^const>\<open>wsdl_type_to_schema\<close> assigns for the element.
\<close>

theorem nillable_dateTime_fragment:
  assumes "nillable e" and "etype e = Some (''dateTime'', XMLSchema)"
    and "root_name e \<noteq> ''simpleType''"
  shows "get_json_schema e =
           Inr [(''type'', JList [JStr ''null'', JStr ''string'']), (''format'', JStr ''date-time'')] \<and>
         property_value e =
           Inr (JDict [(''type'', JList [JStr ''null'', JStr ''string'']),
                       (''format'', JStr ''date-time'')])"
  using assms by (simp add: property_value_def get_json_schema_def xml_to_json_type_def)

theorem nillable_dateTime_witness:
  "property_value (Node ''LastModifiedTime'' True ''element'' (Some (''dateTime'', XMLSchema)) None
                     (''LastModifiedTime'', tns) []) =
     Inr (JDict [(''type'', JList [JStr ''null'', JStr ''string'']), (''format'', JStr ''date-time'')])"
  using nillable_dateTime_fragment
    [of "Node ''LastModifiedTime'' True ''element'' (Some (''dateTime'', XMLSchema)) None
           (''LastModifiedTime'', tns) []"]
  by simp

section \<open>Children typed outside the XML Schema namespace\<close>

text \<open>
  C2, as the code has it. For every child element that is not an enumeration node and
  whose type lies outside the XML Schema namespace: when the type name contains
  \<open>ArrayOfstring\<close> and starts with \<open>ArrayOf\<close> and a lower-case token, the property is
  \<open>{type: array, items: {type: T}}\<close> with \<open>T\<close> the JSON type name of the token; when the
  type name does not contain \<open>ArrayOfstring\<close>, the property is the placeholder string,
  the type name itself.
\<close>

theorem array_of_string_or_placeholder:
  assumes "root_name e \<noteq> ''enumeration''" and "etype e = Some (t, ns)" and "ns \<noteq> XMLSchema"
  shows "(\<forall>tok. str_contains ''ArrayOfstring'' t \<and> match_array_type t = Some tok \<longrightarrow>
            property_value e =
              Inr (JDict [(''type'', JStr ''array''),
                          (''items'', JDict [(''type'', JStr (xml_to_json_type tok))])])) \<and>
         (\<not> str_contains ''ArrayOfstring'' t \<longrightarrow> property_value e = Inr (JStr t))"
  using assms by (simp add: property_value_def get_array_type_def)

theorem array_of_string_witness:
  "property_value (typed_element ''Emails'' ''ArrayOfstring'') =
     Inr (JDict [(''type'', JStr ''array''), (''items'', JDict [(''type'', JStr ''string'')])]) \<and>
   property_value (typed_element ''Address'' ''Address'') = Inr (JStr ''Address'')"
proof -
  have ns: "tns \<noteq> XMLSchema" by (simp add: tns_def XMLSchema_def)
  have 1: "root_name (typed_element ''Emails'' ''ArrayOfstring'') \<noteq> ''enumeration''"
    and 2: "etype (typed_element ''Emails'' ''ArrayOfstring'') = Some (''ArrayOfstring'', tns)"
    and 3: "root_name (typed_element ''Address'' ''Address'') \<noteq> ''enumeration''"
    and 4: "etype (typed_element ''Address'' ''Address'') = Some (''Address'', tns)"
    by (simp_all add: typed_element_def)
  have c: "str_contains ''ArrayOfstring'' ''ArrayOfstring''"
    and m: "match_array_type ''ArrayOfstring'' = Some ''string''"
    and n: "\<not> str_contains ''ArrayOfstring'' ''Address''"
    and x: "xml_to_json_type ''string'' = ''string''"
    by (simp_all add: match_array_type_def is_lower_def xml_to_json_type_def)
  from array_of_string_or_placeholder [OF 1 2 ns] array_of_string_or_placeholder [OF 3 4 ns]
    c m n x
  show ?thesis by auto
qed

text \<open>
  \<open>ArrayOflong\<close> matches the pattern of \<^verbatim>\<open>get_array_type\<close> with the scalar \<open>long\<close>, and the
  property is the placeholder string all the same.
\<close>

theorem array_of_long_counterexample:
  "match_array_type ''ArrayOflong'' = Some ''long'' \<and>
   property_value (typed_element ''Ids'' ''ArrayOflong'') = Inr (JStr ''ArrayOflong'') \<and>
   property_value (typed_element ''Ids'' ''ArrayOflong'') \<noteq>
     Inr (JDict [(''type'', JStr ''array''), (''items'', JDict [(''type'', JStr ''integer'')])])"
  by (simp add: fixture_defs schema_defs)

section \<open>An enumeration inside a complex type\<close>

lemma enumeration_child_no_enum:
  "root_name e = ''enumeration'' \<Longrightarrow> property_value e = Inr (JDict s) \<Longrightarrow>
   map_of s ''enum'' = None"
  by (auto simp: property_value_def get_json_schema_def split: option.splits if_splits)

lemma named_enumeration_resolved:
  "lookup_after account_named_type ''Account'' [''Status''] =
     Inr (Some (JDict [(''type'', JList [JStr ''string'']),
                       (''enum'', JList [JStr ''Active'', JStr ''Paused''])]))"
  by (simp add: account_named_type_def fixture_defs schema_defs type_map_defs)

text \<open>
  C4. \<open>Account\<close> with \<open>Id: long\<close>, \<open>Name: string\<close> and \<open>Status\<close> an inline enumeration
  with the literals \<open>Active\<close> and \<open>Paused\<close> should give the object fragment with the
  three properties. The code raises TypeError instead, for the enumeration child that
  the loop of \<^verbatim>\<open>wsdl_type_to_schema\<close> tests for and for an element with an anonymous
  simple type alike, and so does the discovery of a service exposing the type.
\<close>

theorem inline_enumeration_raises:
  "wsdl_type_to_schema account_enumeration_child = Inl TypeError \<and>
   wsdl_type_to_schema account_anonymous_type = Inl TypeError \<and>
   get_type_map [account_enumeration_child] = Inl TypeError \<and>
   get_type_map [account_anonymous_type] = Inl TypeError"
  by (simp add: account_enumeration_child_def account_anonymous_type_def get_type_map_def
        fixture_defs schema_defs)

section \<open>Walking nested dicts\<close>

lemma get_field_walk:
  "nested_dicts fs obj \<Longrightarrow>
   get_field fs obj dflt = Inr (case walk fs obj of None \<Rightarrow> dflt | Some v \<Rightarrow> v)"
proof (induction fs arbitrary: obj)
  case Nil
  then show ?case by simp
next
  case (Cons f fs)
  then show ?case
    by (cases obj) (auto split: option.splits pyval.splits)
qed

lemma get_field_raises:
  "\<not> nested_dicts fs obj \<Longrightarrow> get_field fs obj dflt = Inl AttributeError"
proof (induction fs arbitrary: obj)
  case Nil
  then show ?case by simp
next
  case (Cons f fs)
  then show ?case
    by (cases obj) (auto split: option.splits pyval.splits)
qed

text \<open>
  C10, as the code has it. Take any object, any default and any sequence of field
  names. When every value in which a field is looked up is a dict (the object itself,
  and each value other than \<^verbatim>\<open>None\<close> that is reached while fields are left),
  \<^const>\<open>get_field\<close> raises nothing: it returns the default as soon as a field is missing
  or maps to \<^verbatim>\<open>None\<close>, and the value reached at the end of the chain otherwise. When
  the field names run on past a value that is neither a dict nor \<^verbatim>\<open>None\<close>, it raises
  AttributeError.
\<close>

theorem get_field_default_value_or_error:
  "(nested_dicts fs obj \<longrightarrow>
      (walk fs obj = None \<longrightarrow> get_field fs obj dflt = Inr dflt) \<and>
      (\<forall>v. walk fs obj = Some v \<longrightarrow> get_field fs obj dflt = Inr v)) \<and>
   (\<not> nested_dicts fs obj \<longrightarrow> get_field fs obj dflt = Inl AttributeError)"
proof (cases "nested_dicts fs obj")
  case True
  then show ?thesis using get_field_walk [OF True, of dflt] by simp
next
  case False
  then show ?thesis by (simp add: get_field_raises)
qed

theorem get_field_witness:
  "nested_dicts [''a'', ''b''] (PDict [(''a'', PDict [(''b'', PStr ''v'')])]) \<and>
   get_field [''a'', ''b''] (PDict [(''a'', PDict [(''b'', PStr ''v'')])]) (PList []) = Inr (PStr ''v'') \<and>
   nested_dicts [''a'', ''c'', ''d''] (PDict [(''a'', PDict [(''b'', PStr ''v'')])]) \<and>
   get_field [''a'', ''c'', ''d''] (PDict [(''a'', PDict [(''b'', PStr ''v'')])]) (PList []) = Inr (PList []) \<and>
   \<not> nested_dicts [''a'', ''b''] (PDict [(''a'', PStr ''text'')]) \<and>
   get_field [''a'', ''b''] (PDict [(''a'', PStr ''text'')]) (PList []) = Inl AttributeError"
proof -
  let ?obj = "PDict [(''a'', PDict [(''b'', PStr ''v'')])]"
  let ?leaf = "PDict [(''a'', PStr ''text'')]"
  have n1: "nested_dicts [''a'', ''b''] ?obj" and n2: "nested_dicts [''a'', ''c'', ''d''] ?obj"
    and n3: "\<not> nested_dicts [''a'', ''b''] ?leaf"
    by simp_all
  have w1: "walk [''a'', ''b''] ?obj = Some (PStr ''v'')" and w2: "walk [''a'', ''c'', ''d''] ?obj = None"
    by simp_all
  from get_field_default_value_or_error [of "[''a'', ''b'']" ?obj "PList []"] n1 w1
  have 1: "get_field [''a'', ''b''] ?obj (PList []) = Inr (PStr ''v'')" by simp
  from get_field_default_value_or_error [of "[''a'', ''c'', ''d'']" ?obj "PList []"] n2 w2
  have 2: "get_field [''a'', ''c'', ''d''] ?obj (PList []) = Inr (PList [])" by simp
  from get_field_default_value_or_error [of "[''a'', ''b'']" ?leaf "PList []"] n3
  have 3: "get_field [''a'', ''b''] ?leaf (PList []) = Inl AttributeError" by simp
  from n1 n2 n3 1 2 3 show ?thesis by (intro conjI)
qed

text \<open>
  The object is a chain of nested dicts, and the field names run one step past its
  string leaf: \<^verbatim>\<open>'v'.get('c')\<close> raises AttributeError, and the default is not returned.
\<close>

theorem get_field_past_leaf_counterexample:
  "get_field [''a'', ''b'', ''c''] (PDict [(''a'', PDict [(''b'', PStr ''v'')])]) (PList []) =
     Inl AttributeError \<and>
   get_field [''a'', ''b'', ''c''] (PDict [(''a'', PDict [(''b'', PStr ''v'')])]) (PList []) \<noteq>
     Inr (PList [])"
  by simp

section \<open>The list of ad accounts\<close>





section \<open>Records of one account\<close>

text \<open>
  What \<^const>\<open>sync_ad_groups\<close> hands to \<^const>\<open>sync_ads\<close>: for a campaign with two ad groups,
  one element that is the list of both ids.
\<close>

lemma ad_group_ids_list_of_lists:
  assumes "map_of c ''Id'' = Some cid"
    and "GetAdGroupsByCampaignId r cid = Inr (PDict resp)"
    and "map_of resp ''AdGroup'' = Some (PList [PDict g1, PDict g2])"
    and "map_of g1 ''Id'' = Some i1" and "map_of g2 ''Id'' = Some i2"
  shows "fst (sync_ad_groups r [PDict c] sel [] out) = Inr [PList [i1, i2]]"
  using assms by simp

text \<open>
  When the remote answers the request whose \<^verbatim>\<open>AdGroupId\<close> is the one-element list of the
  ad group's id with the ad, the records are the two campaigns, the ad group and the
  ad, in this order.
\<close>

lemma sync_with_list_answered:
  assumes sel: "''campaigns'' \<in> set sel" "''ad_groups'' \<in> set sel" "''ads'' \<in> set sel"
    and acct: "''accounts'' \<in> set sel \<longrightarrow>
                 create_sdk_client r ''CustomerManagementService'' = None \<and>
                 GetAccount r account_id = Inr account"
    and conn: "create_sdk_client r ''CampaignManagementService'' = None"
    and camps: "GetCampaignsByAccountId r account_id = Inr (PDict resp)"
               "map_of resp ''Campaign'' = Some (PList [PDict c1, PDict c2])"
    and ids: "map_of c1 ''Id'' = Some id1" "map_of c2 ''Id'' = Some id2"
    and g1: "GetAdGroupsByCampaignId r id1 = Inr (PDict gresp1)"
            "map_of gresp1 ''AdGroup'' = Some (PList [PDict g])" "map_of g ''Id'' = Some gid"
    and g2: "GetAdGroupsByCampaignId r id2 = Inr (PDict gresp2)" "map_of gresp2 ''AdGroup'' = None"
    and ads: "GetAdsByAdGroupId r (PList [gid]) = Inr (PDict aresp)"
             "map_of aresp ''Ad'' = Some (PList [ad])"
  shows "sync_core_objects r customer_id account_id sel [] =
           (Inr (), (if ''accounts'' \<in> set sel then [(''accounts'', account)] else []) @
                    [(''campaigns'', PDict c1), (''campaigns'', PDict c2),
                     (''ad_groups'', PDict g), (''ads'', ad)])"
proof -
  let ?out1 = "if ''accounts'' \<in> set sel then [(''accounts'', account)] else []"
  have a: "(if ''accounts'' \<in> set sel then sync_account_stream r customer_id account_id []
            else (Inr (), [])) = (Inr (), ?out1)"
    using acct by (simp add: sync_account_stream_def)
  have c: "sync_campaigns r account_id sel ?out1 =
           (Inr (Some [PDict c1, PDict c2]),
            ?out1 @ [(''campaigns'', PDict c1), (''campaigns'', PDict c2)])"
    using camps sel(1) by (simp add: sync_campaigns_def)
  have g: "sync_ad_groups r [PDict c1, PDict c2] sel [] out =
           (Inr [PList [gid]], out @ [(''ad_groups'', PDict g)])" for out
    using ids g1 g2 sel(2) by simp
  have d: "sync_ads r [PList [gid]] out = (Inr (), out @ [(''ads'', ad)])" for out
    using ads by simp
  show ?thesis
    unfolding sync_core_objects_def a using conn sel
    by (simp add: c g d del: sync_ad_groups.simps sync_ads.simps)
qed


end
